theory Spec2Isabelle
  imports Main "HOL-Library.Word"
begin

section \<open>HexString (sdk\_v2/src/types/types.ts)\<close>

text \<open>
  The class \<^verbatim>\<open>HexString\<close> has one private field, \<^verbatim>\<open>hexString\<close>. JavaScript strings are
  modelled as \<^typ>\<open>string\<close>; a \<^verbatim>\<open>Uint8Array\<close> is a list of 8-bit words.
\<close>

record HexString =
  hexString :: string

text \<open>\<^verbatim>\<open>MaybeHexString = HexString | string\<close>\<close>

datatype MaybeHexString = Hex HexString | Str string

text \<open>\<^verbatim>\<open>s.startsWith(p)\<close>\<close>

definition startsWith :: "string \<Rightarrow> string \<Rightarrow> bool" where
  "startsWith s p \<longleftrightarrow> take (length p) s = p"

text \<open>
  The constructor: the argument is stored as it is when it starts with \<^verbatim>\<open>0x\<close>, and with
  \<^verbatim>\<open>0x\<close> in front otherwise. Nothing else is checked.
\<close>

definition HexString_new :: "string \<Rightarrow> HexString" where
  "HexString_new s =
     (if startsWith s ''0x'' then \<lparr>hexString = s\<rparr> else \<lparr>hexString = ''0x'' @ s\<rparr>)"

text \<open>\<^verbatim>\<open>HexString.ensure\<close>: a string goes through the constructor, an instance is returned as it is.\<close>

fun ensure :: "MaybeHexString \<Rightarrow> HexString" where
  "ensure (Str s) = HexString_new s"
| "ensure (Hex h) = h"

definition hex :: "HexString \<Rightarrow> string" where
  "hex h = hexString h"

text \<open>\<^verbatim>\<open>this.hexString.slice(2)\<close>\<close>

definition noPrefix :: "HexString \<Rightarrow> string" where
  "noPrefix h = drop 2 (hexString h)"

definition toString :: "HexString \<Rightarrow> string" where
  "toString h = hex h"

text \<open>
  \<^verbatim>\<open>s.replace(/^0x0*/, "")\<close>: the pattern is anchored at the start and has no global flag.
  It matches exactly when \<^verbatim>\<open>s\<close> starts with \<^verbatim>\<open>0x\<close>; the greedy \<^verbatim>\<open>0*\<close> then takes every
  following \<^verbatim>\<open>0\<close>, and the match is replaced by the empty string. Without a match the string
  is returned unchanged.
\<close>

definition replace_0x_zeros :: "string \<Rightarrow> string" where
  "replace_0x_zeros s =
     (if startsWith s ''0x'' then dropWhile (\<lambda>c. c = CHR ''0'') (drop 2 s) else s)"

definition toShortString :: "HexString \<Rightarrow> string" where
  "toShortString h = (let trimmed = replace_0x_zeros (hexString h) in ''0x'' @ trimmed)"

subsection \<open>The byte codec used by \<^verbatim>\<open>fromUint8Array\<close> and \<^verbatim>\<open>toUint8Array\<close>\<close>

type_synonym Uint8Array = "8 word list"

text \<open>The error raised when a digit string cannot be decoded.\<close>

datatype FormatError = FormatError

definition hexdigit :: "nat \<Rightarrow> char" where
  "hexdigit n = (if n < 10 then char_of (48 + n) else char_of (87 + n))"

definition hexval :: "char \<Rightarrow> nat option" where
  "hexval c =
     (let n = (of_char c :: nat) in
      if 48 \<le> n \<and> n \<le> 57 then Some (n - 48)
      else if 97 \<le> n \<and> n \<le> 102 then Some (n - 87)
      else if 65 \<le> n \<and> n \<le> 70 then Some (n - 55)
      else None)"

definition is_hex_char :: "char \<Rightarrow> bool" where
  "is_hex_char c \<longleftrightarrow> hexval c \<noteq> None"

text \<open>
  Modelled from the spec: \<^verbatim>\<open>bytesToHex\<close> is imported from the package
  \<^verbatim>\<open>@noble/hashes/utils\<close>, whose code is not part of the sources. The spec asks for the
  canonical hex string of a byte sequence and a bit-exact round trip: every byte is written
  as two lower-case hex digits, high nibble first, with no prefix.
\<close>

fun bytesToHex :: "Uint8Array \<Rightarrow> string" where
  "bytesToHex [] = []"
| "bytesToHex (b # bs) =
     hexdigit (unat b div 16) # hexdigit (unat b mod 16) # bytesToHex bs"

text \<open>
  Modelled from the spec: \<^verbatim>\<open>hexToBytes\<close> is imported from the package
  \<^verbatim>\<open>@noble/hashes/utils\<close>, whose code is not part of the sources. The spec says that
  malformed hex (odd length or non-hex characters) fails with a \<^verbatim>\<open>FormatError\<close>;
  otherwise every pair of digits gives one byte.
\<close>

fun decode_pairs :: "string \<Rightarrow> FormatError + Uint8Array" where
  "decode_pairs (c1 # c2 # cs) =
     (case (hexval c1, hexval c2) of
        (Some h, Some l) \<Rightarrow>
          (case decode_pairs cs of
             Inl e \<Rightarrow> Inl e
           | Inr bs \<Rightarrow> Inr (word_of_nat (16 * h + l) # bs))
      | _ \<Rightarrow> Inl FormatError)"
| "decode_pairs [c] = Inl FormatError"
| "decode_pairs [] = Inr []"

definition hexToBytes :: "string \<Rightarrow> FormatError + Uint8Array" where
  "hexToBytes s = (if odd (length s) then Inl FormatError else decode_pairs s)"

text \<open>\<^verbatim>\<open>HexString.fromUint8Array\<close> and \<^verbatim>\<open>HexString.fromBuffer\<close>\<close>

definition fromUint8Array :: "Uint8Array \<Rightarrow> HexString" where
  "fromUint8Array arr = HexString_new (bytesToHex arr)"

definition fromBuffer :: "Uint8Array \<Rightarrow> HexString" where
  "fromBuffer buffer = fromUint8Array buffer"

text \<open>\<^verbatim>\<open>toUint8Array\<close>: \<^verbatim>\<open>Uint8Array.from\<close> copies the decoded array; an exception passes through.\<close>

definition toUint8Array :: "HexString \<Rightarrow> FormatError + Uint8Array" where
  "toUint8Array h = hexToBytes (noPrefix h)"

text \<open>
  The digits of an input string are what follows the prefix \<^verbatim>\<open>0x\<close>, or the whole string
  when it has none. They are malformed when their number is odd or one of them is no hex
  digit.
\<close>

definition digits_of :: "string \<Rightarrow> string" where
  "digits_of s = (if startsWith s ''0x'' then drop 2 s else s)"

definition malformed :: "string \<Rightarrow> bool" where
  "malformed d \<longleftrightarrow> odd (length d) \<or> \<not> list_all is_hex_char d"

section \<open>Requests, responses and \<^verbatim>\<open>AptosApiError\<close> (sdk\_v2/src/types/types.ts)\<close>

text \<open>Values of type \<^verbatim>\<open>any\<close> (decoded bodies) are JSON values.\<close>

datatype json =
    JNull
  | JBool bool
  | JNum int
  | JStr string
  | JArr "json list"
  | JObj "(string \<times> json) list"

text \<open>Reading a field of a decoded object, \<^verbatim>\<open>data?.message\<close>.\<close>

fun json_field :: "json \<Rightarrow> string \<Rightarrow> json option" where
  "json_field (JObj kvs) k = map_of kvs k"
| "json_field _ k = None"

datatype HttpMethod = GET | POST

text \<open>A query parameter value, \<^verbatim>\<open>string | AnyNumber | boolean\<close>; \<^verbatim>\<open>undefined\<close> is an absent key.\<close>

datatype ParamValue = PStr string | PNum int | PBool bool

record ClientConfig =
  TOKEN :: "string option"
  HEADERS :: "(string \<times> ParamValue) list option"
  WITH_CREDENTIALS :: "bool option"

text \<open>\<^verbatim>\<open>AptosRequest\<close>; the field \<^verbatim>\<open>method\<close> of the source is \<open>http_method\<close> here.\<close>

record AptosRequest =
  url :: string
  http_method :: HttpMethod
  endpoint :: "string option"
  body :: "json option"
  contentType :: "string option"
  params :: "(string \<rightharpoonup> ParamValue) option"
  originMethod :: "string option"
  overrides :: "ClientConfig option"

text \<open>
  \<^verbatim>\<open>AptosResponse<Req, Res>\<close>. The field \<^verbatim>\<open>url\<close> of the source is \<open>response_url\<close> here,
  since \<open>url\<close> is the field of the request.
\<close>

record ('req, 'res) AptosResponse =
  status :: int
  statusText :: string
  data :: 'res
  response_url :: string
  headers :: "(string \<times> string) list"
  config :: "json option"
  request :: "'req option"

text \<open>
  \<^verbatim>\<open>class AptosApiError extends Error\<close>. The fields carry the prefix \<open>error_\<close>;
  \<open>error_message\<close> is the message given to \<^verbatim>\<open>super\<close>.
\<close>

record AptosApiError =
  error_message :: string
  error_name :: string
  error_url :: string
  error_status :: int
  error_statusText :: string
  error_data :: json
  error_request :: AptosRequest

definition AptosApiError_new ::
  "AptosRequest \<Rightarrow> ('req, json) AptosResponse \<Rightarrow> string \<Rightarrow> AptosApiError" where
  "AptosApiError_new req response message =
     \<lparr>error_message = message,
      error_name = ''AptosApiError'',
      error_url = response_url response,
      error_status = status response,
      error_statusText = statusText response,
      error_data = data response,
      error_request = req\<rparr>"

section \<open>Configuration and the request of \<^verbatim>\<open>Account.getModules\<close> (sdk\_v2/src/api/account.ts)\<close>

record AptosConfig =
  network :: string
  clientConfig :: "ClientConfig option"

text \<open>\<^verbatim>\<open>{ ...this.config.clientConfig }\<close>: a copy, the empty object when there is none.\<close>

definition spread_clientConfig :: "AptosConfig \<Rightarrow> ClientConfig" where
  "spread_clientConfig cfg =
     (case clientConfig cfg of
        None \<Rightarrow> \<lparr>TOKEN = None, HEADERS = None, WITH_CREDENTIALS = None\<rparr>
      | Some c \<Rightarrow> c)"

text \<open>The request of \<^verbatim>\<open>Account.getData\<close>; \<^verbatim>\<open>get\<close> sets the method.\<close>

definition getData_request :: "AptosConfig \<Rightarrow> MaybeHexString \<Rightarrow> AptosRequest" where
  "getData_request cfg accountAddress =
     \<lparr>url = network cfg,
      http_method = GET,
      endpoint = Some (''accounts/'' @ hex (ensure accountAddress)),
      body = None,
      contentType = None,
      params = None,
      originMethod = Some ''getData'',
      overrides = Some (spread_clientConfig cfg)\<rparr>"

text \<open>
  The options \<^verbatim>\<open>getModules\<close> hands to \<^verbatim>\<open>paginateWithCursor\<close>:
  \<^verbatim>\<open>params: { ledger_version: query?.ledgerVersion, limit: 1000 }\<close>. The walker reads with
  \<^verbatim>\<open>GET\<close>.
\<close>

definition getModules_options ::
  "AptosConfig \<Rightarrow> MaybeHexString \<Rightarrow> int option \<Rightarrow> AptosRequest" where
  "getModules_options cfg accountAddress ledgerVersion =
     \<lparr>url = network cfg,
      http_method = GET,
      endpoint = Some (''accounts/'' @ hex (ensure accountAddress) @ ''/modules''),
      body = None,
      contentType = None,
      params = Some ((\<lambda>k. None)(''ledger_version'' := map_option PNum ledgerVersion,
                                  ''limit'' \<mapsto> PNum 1000)),
      originMethod = Some ''getModules'',
      overrides = Some (spread_clientConfig cfg)\<rparr>"

section \<open>The pagination walker\<close>

text \<open>
  What the walker reads of one response: the decoded items of the page and the value of
  the cursor header, when the header is there.
\<close>

record 'a Page =
  page_items :: "'a list"
  cursor_header :: "string option"

text \<open>
  The failures of a walk: the two the transport can surface, passed on unchanged, and the
  walker's own, which carries the items gathered so far.
\<close>

datatype 'a WalkError =
    TransportError string
  | ApiError AptosApiError
  | PaginationExhaustedError "'a list"

text \<open>\<^verbatim>\<open>PaginationState\<close>: the items so far, the cursor seen last, the requests issued.\<close>

record 'a PaginationState =
  items :: "'a list"
  cursor :: "string option"
  iterations :: nat

text \<open>
  The transport: the answer to a request, given how many requests came before it, so that
  a server may answer the same request differently over time.
\<close>

type_synonym 'a transport = "nat \<Rightarrow> AptosRequest \<Rightarrow> 'a WalkError + 'a Page"

text \<open>The cursor goes into the \<^verbatim>\<open>start\<close> parameter; the first request is the caller's own.\<close>

definition with_start :: "AptosRequest \<Rightarrow> string option \<Rightarrow> AptosRequest" where
  "with_start options c =
     (case c of
        None \<Rightarrow> options
      | Some s \<Rightarrow>
          options\<lparr>params :=
            Some ((case params options of None \<Rightarrow> (\<lambda>k. None) | Some ps \<Rightarrow> ps)
                    (''start'' \<mapsto> PStr s))\<rparr>)"

text \<open>
  Modelled from the spec: \<^verbatim>\<open>paginateWithCursor\<close> is imported from \<^verbatim>\<open>../utils\<close>, which is
  not among the sources. The spec (4.4): issue a request, append its items, read the
  cursor; the walk ends (a) with success when the cursor is absent or empty, (b) with
  success when it equals the cursor just used, (c) with a \<^verbatim>\<open>PaginationExhaustedError\<close>
  carrying the items so far when the iteration count exceeds the safety bound; otherwise the
  next request carries the new cursor. A failure of the transport ends the walk at once and
  is passed on unchanged. The safety bound, which the spec leaves open, is the parameter
  \<open>bound\<close>. The second component of the result counts the requests issued.
\<close>

function walk ::
  "nat \<Rightarrow> 'a transport \<Rightarrow> AptosRequest \<Rightarrow> 'a PaginationState \<Rightarrow> ('a WalkError + 'a list) \<times> nat"
where
  "walk bound get options st =
     (case get (iterations st) (with_start options (cursor st)) of
        Inl e \<Rightarrow> (Inl e, Suc (iterations st))
      | Inr page \<Rightarrow>
          (case cursor_header page of
             None \<Rightarrow> (Inr (items st @ page_items page), Suc (iterations st))
           | Some c \<Rightarrow>
               if c = [] then (Inr (items st @ page_items page), Suc (iterations st))
               else if cursor st = Some c
                 then (Inr (items st @ page_items page), Suc (iterations st))
               else if bound < Suc (iterations st)
                 then (Inl (PaginationExhaustedError (items st @ page_items page)),
                       Suc (iterations st))
               else walk bound get options
                      \<lparr>items = items st @ page_items page,
                       cursor = Some c,
                       iterations = Suc (iterations st)\<rparr>))"
  by pat_completeness auto
termination
  by (relation "measure (\<lambda>(bound, get, options, st). Suc bound - iterations st)") auto

definition paginateWithCursor ::
  "nat \<Rightarrow> 'a transport \<Rightarrow> AptosRequest \<Rightarrow> ('a WalkError + 'a list) \<times> nat" where
  "paginateWithCursor bound get options =
     walk bound get options \<lparr>items = [], cursor = None, iterations = 0\<rparr>"

text \<open>
  The course of a walk, for stating what it does: the cursor sent with request \<open>k\<close>, the
  answer to request \<open>k\<close>, the items of the first \<open>k\<close> answers, and whether the walk
  goes on after answer \<open>k\<close>.
\<close>

fun nth_cursor :: "'a transport \<Rightarrow> AptosRequest \<Rightarrow> nat \<Rightarrow> string option" where
  "nth_cursor get options 0 = None"
| "nth_cursor get options (Suc k) =
     (case get k (with_start options (nth_cursor get options k)) of
        Inl e \<Rightarrow> None
      | Inr page \<Rightarrow> cursor_header page)"

definition nth_response :: "'a transport \<Rightarrow> AptosRequest \<Rightarrow> nat \<Rightarrow> 'a WalkError + 'a Page" where
  "nth_response get options k = get k (with_start options (nth_cursor get options k))"

fun gathered :: "'a transport \<Rightarrow> AptosRequest \<Rightarrow> nat \<Rightarrow> 'a list" where
  "gathered get options 0 = []"
| "gathered get options (Suc k) =
     gathered get options k @
       (case nth_response get options k of Inl e \<Rightarrow> [] | Inr page \<Rightarrow> page_items page)"

definition fresh_cursor :: "'a transport \<Rightarrow> AptosRequest \<Rightarrow> nat \<Rightarrow> bool" where
  "fresh_cursor get options k =
     (case nth_response get options k of
        Inl e \<Rightarrow> False
      | Inr page \<Rightarrow>
          (case cursor_header page of
             None \<Rightarrow> False
           | Some c \<Rightarrow> c \<noteq> [] \<and> nth_cursor get options k \<noteq> Some c))"

definition continues :: "nat \<Rightarrow> 'a transport \<Rightarrow> AptosRequest \<Rightarrow> nat \<Rightarrow> bool" where
  "continues bound get options k \<longleftrightarrow> fresh_cursor get options k \<and> Suc k \<le> bound"

text \<open>The state in which request \<open>k\<close> is issued, when the walk gets that far.\<close>

definition state_at :: "'a transport \<Rightarrow> AptosRequest \<Rightarrow> nat \<Rightarrow> 'a PaginationState" where
  "state_at get options k =
     \<lparr>items = gathered get options k, cursor = nth_cursor get options k, iterations = k\<rparr>"

text \<open>
  Two servers to run the walker on. The first yields pages of 40, 40 and 20 items with a
  new cursor on the first two and none on the third. The second cannot advance: it sends
  the cursor \<^verbatim>\<open>a\<close> with every page.
\<close>

definition three_page_server :: "nat transport" where
  "three_page_server k r =
     (if k = 0 then Inr \<lparr>page_items = [0..<40], cursor_header = Some ''c1''\<rparr>
      else if k = 1 then Inr \<lparr>page_items = [40..<80], cursor_header = Some ''c2''\<rparr>
      else Inr \<lparr>page_items = [80..<100], cursor_header = None\<rparr>)"

definition stalled_server :: "nat transport" where
  "stalled_server k r =
     (if k = 0 then Inr \<lparr>page_items = [1, 2], cursor_header = Some ''a''\<rparr>
      else Inr \<lparr>page_items = [3 + k], cursor_header = Some ''a''\<rparr>)"

definition devnet :: AptosConfig where
  "devnet = \<lparr>network = ''https://fullnode.devnet.aptoslabs.com/v1'', clientConfig = None\<rparr>"

text \<open>The answer of a node that does not know the account: status 404 and a JSON body.\<close>

definition account_not_found :: "(unit, json) AptosResponse" where
  "account_not_found =
     \<lparr>status = 404,
      statusText = ''Not Found'',
      data = JObj [(''message'', JStr ''Account not found'')],
      response_url = ''https://fullnode.devnet.aptoslabs.com/v1/accounts/0x1'',
      headers = [],
      config = None,
      request = None\<rparr>"

section \<open>The memoized \<^verbatim>\<open>General.getChainId\<close>\<close>

text \<open>The part of \<^verbatim>\<open>IndexResponse\<close> the method reads.\<close>

record IndexResponse =
  chain_id :: int

text \<open>
  An instance of \<^verbatim>\<open>General\<close>: its configuration and the cache entry of \<^verbatim>\<open>getChainId\<close>,
  empty until a call has succeeded.
\<close>

record General =
  general_config :: AptosConfig
  chainId_entry :: "int option"

text \<open>
  The network as \<^verbatim>\<open>get\<close> sees it: the answer to a request, given how many calls came
  before it. The number of calls made is threaded through as the call counter.
\<close>

type_synonym 'e network = "nat \<Rightarrow> AptosRequest \<Rightarrow> 'e + (unit, IndexResponse) AptosResponse"

text \<open>
  The body of \<^verbatim>\<open>getChainId\<close>: one \<^verbatim>\<open>get\<close> with the instance's network and overrides, of
  which \<^verbatim>\<open>data.chain_id\<close> is returned. A rejected \<^verbatim>\<open>get\<close> rejects the method.
\<close>

definition getChainId_request :: "General \<Rightarrow> AptosRequest" where
  "getChainId_request g =
     \<lparr>url = network (general_config g),
      http_method = GET,
      endpoint = None,
      body = None,
      contentType = None,
      params = None,
      originMethod = Some ''getChainId'',
      overrides = Some (spread_clientConfig (general_config g))\<rparr>"

definition getChainId_body :: "'e network \<Rightarrow> General \<Rightarrow> nat \<Rightarrow> ('e + int) \<times> nat" where
  "getChainId_body net g calls =
     (case net calls (getChainId_request g) of
        Inl e \<Rightarrow> (Inl e, Suc calls)
      | Inr response \<Rightarrow> (Inr (chain_id (data response)), Suc calls))"

text \<open>
  Modelled from the spec: the decorator \<^verbatim>\<open>Memoize\<close> is imported from \<^verbatim>\<open>../utils\<close>, which
  is not among the sources. The spec (4.5): the first invocation on an instance performs the
  underlying call; on success the result is stored in the instance's cache entry and
  returned; every later invocation returns the stored value without touching the network;
  on failure nothing is cached.
\<close>

definition Memoize ::
  "(General \<Rightarrow> nat \<Rightarrow> ('e + int) \<times> nat) \<Rightarrow> General \<Rightarrow> nat \<Rightarrow> ('e + int) \<times> General \<times> nat" where
  "Memoize f g calls =
     (case chainId_entry g of
        Some v \<Rightarrow> (Inr v, g, calls)
      | None \<Rightarrow>
          (case f g calls of
             (Inl e, calls') \<Rightarrow> (Inl e, g, calls')
           | (Inr v, calls') \<Rightarrow> (Inr v, g\<lparr>chainId_entry := Some v\<rparr>, calls')))"

definition getChainId :: "'e network \<Rightarrow> General \<Rightarrow> nat \<Rightarrow> ('e + int) \<times> General \<times> nat" where
  "getChainId net = Memoize (getChainId_body net)"

text \<open>\<open>n\<close> invocations one after the other on the same instance: the results, in order.\<close>

fun invocations ::
  "nat \<Rightarrow> 'e network \<Rightarrow> General \<Rightarrow> nat \<Rightarrow> ('e + int) list \<times> General \<times> nat" where
  "invocations 0 net g calls = ([], g, calls)"
| "invocations (Suc n) net g calls =
     (case getChainId net g calls of
        (r, g', calls') \<Rightarrow>
          (case invocations n net g' calls' of
             (rs, g'', calls'') \<Rightarrow> (r # rs, g'', calls'')))"

text \<open>A network that is down for the first call and answers with chain 4 afterwards.\<close>

definition flaky_network :: "string network" where
  "flaky_network k r =
     (if k = 0 then Inl ''connection refused''
      else Inr \<lparr>status = 200, statusText = ''OK'', data = \<lparr>chain_id = 4\<rparr>,
                response_url = url r, headers = [], config = None, request = None\<rparr>)"

definition fresh_General :: General where
  "fresh_General = \<lparr>general_config = devnet, chainId_entry = None\<rparr>"

section \<open>Properties of \<^verbatim>\<open>HexString\<close>\<close>

lemma startsWith_0x_iff: "startsWith s ''0x'' \<longleftrightarrow> (\<exists>r. s = ''0x'' @ r)"
  unfolding startsWith_def
  by (metis append_eq_conv_conj append_take_drop_id length_Cons list.size(3) One_nat_def
      numeral_2_eq_2)

lemma startsWith_HexString_new: "startsWith (hexString (HexString_new s)) ''0x''"
  by (simp add: HexString_new_def startsWith_def)

lemma hex_HexString_new: "hex (HexString_new s) = ''0x'' @ noPrefix (HexString_new s)"
  by (auto simp: hex_def noPrefix_def HexString_new_def startsWith_0x_iff)

lemma dropWhile_all: "set xs \<subseteq> {a} \<Longrightarrow> dropWhile (\<lambda>c. c = a) xs = []"
  by (induction xs) auto

lemma replace_0x_zeros_HexString_new:
  "replace_0x_zeros (hexString (HexString_new s)) =
   dropWhile (\<lambda>c. c = CHR ''0'') (noPrefix (HexString_new s))"
  using startsWith_HexString_new [of s] by (simp add: replace_0x_zeros_def noPrefix_def)

subsection \<open>The codec\<close>

lemma hexval_hexdigit: "n < 16 \<Longrightarrow> hexval (hexdigit n) = Some n"
  by (auto simp: hexval_def hexdigit_def Let_def)

lemma hexdigit_not_x: "n < 16 \<Longrightarrow> hexdigit n \<noteq> CHR ''x''"
proof
  assume n: "n < 16" and eq: "hexdigit n = CHR ''x''"
  have "hexval (CHR ''x'') = None" by (simp add: hexval_def)
  with hexval_hexdigit [OF n] eq show False by simp
qed

lemma high_nibble_less: "unat (b :: 8 word) div 16 < 16"
proof -
  have "unat b < 2 ^ 8" using unsigned_less [of b, where ?'a = nat] by simp
  then show ?thesis by simp
qed

lemma decode_pairs_bytesToHex: "decode_pairs (bytesToHex bs) = Inr bs"
  by (induction bs) (simp_all add: hexval_hexdigit high_nibble_less)

lemma even_length_bytesToHex: "even (length (bytesToHex bs))"
  by (induction bs) simp_all

lemma hexToBytes_bytesToHex: "hexToBytes (bytesToHex bs) = Inr bs"
  by (simp add: hexToBytes_def even_length_bytesToHex decode_pairs_bytesToHex)

lemma not_startsWith_bytesToHex: "\<not> startsWith (bytesToHex bs) ''0x''"
proof (cases bs)
  case Nil
  then show ?thesis by (simp add: startsWith_def)
next
  case (Cons b bs')
  have "unat b mod 16 < 16" by simp
  from hexdigit_not_x [OF this] Cons show ?thesis
    by (simp add: startsWith_def)
qed

subsection \<open>The short form\<close>

text \<open>
  C1 says that the short form of an all-zero address is \<^verbatim>\<open>0x0\<close>. The code has no such
  floor: on the all-zero 32-byte address the pattern takes the prefix and all 64 zeros, and
  what is returned is the bare prefix.
\<close>

theorem toShortString_all_zero_counterexample:
  "set (noPrefix (ensure (Str (''0x'' @ replicate 64 (CHR ''0''))))) = {CHR ''0''}
   \<and> toShortString (ensure (Str (''0x'' @ replicate 64 (CHR ''0'')))) = ''0x''
   \<and> toShortString (ensure (Str (''0x'' @ replicate 64 (CHR ''0'')))) \<noteq> ''0x0''"
  by (simp add: toShortString_def replace_0x_zeros_def HexString_new_def startsWith_def
      noPrefix_def)

text \<open>
  C1, as the code has it: \<^verbatim>\<open>toShortString\<close> returns \<^verbatim>\<open>0x\<close> followed by the digits
  without any of their leading zeros; for a HexString whose digits after the prefix are all
  zeros that is the bare prefix \<^verbatim>\<open>0x\<close>.
\<close>

theorem toShortString_strips_every_zero:
  "toShortString (HexString_new s) =
     ''0x'' @ dropWhile (\<lambda>c. c = CHR ''0'') (noPrefix (HexString_new s))
   \<and> (set (noPrefix (HexString_new s)) \<subseteq> {CHR ''0''} \<longrightarrow>
        toShortString (HexString_new s) = ''0x'')"
proof -
  have general: "toShortString (HexString_new s) =
      ''0x'' @ dropWhile (\<lambda>c. c = CHR ''0'') (noPrefix (HexString_new s))"
    by (simp add: toShortString_def replace_0x_zeros_HexString_new)
  then show ?thesis by (simp add: dropWhile_all)
qed

theorem toShortString_strips_every_zero_witness:
  "set (noPrefix (HexString_new (''0x'' @ replicate 64 (CHR ''0'')))) \<subseteq> {CHR ''0''}
   \<and> toShortString (HexString_new (''0x'' @ replicate 64 (CHR ''0''))) = ''0x''
   \<and> toShortString (HexString_new ''0x000a0'') = ''0xa0''"
proof -
  have zeros: "set (noPrefix (HexString_new (''0x'' @ replicate 64 (CHR ''0'')))) \<subseteq> {CHR ''0''}"
    by (simp add: HexString_new_def startsWith_def noPrefix_def)
  have short: "toShortString (HexString_new ''0x000a0'') = ''0xa0''"
    using toShortString_strips_every_zero [of "''0x000a0''"]
    by (simp add: HexString_new_def startsWith_def noPrefix_def)
  have "toShortString (HexString_new (''0x'' @ replicate 64 (CHR ''0''))) = ''0x''"
    using toShortString_strips_every_zero [of "''0x'' @ replicate 64 (CHR ''0'')"] zeros
    by blast
  with zeros short show ?thesis by blast
qed

subsection \<open>Bytes to hex and back\<close>

text \<open>
  C2: for every byte sequence \<open>b\<close>,
  \<^verbatim>\<open>HexString.ensure(HexString.fromUint8Array(b)).toUint8Array()\<close> is \<open>b\<close> again, byte for
  byte. The digits \<^verbatim>\<open>bytesToHex\<close> writes never start with \<^verbatim>\<open>0x\<close>, so the constructor
  always adds the prefix, and \<^verbatim>\<open>noPrefix\<close> takes off exactly what was added.
\<close>

theorem bytes_round_trip: "toUint8Array (ensure (Hex (fromUint8Array b))) = Inr b"
  by (simp add: toUint8Array_def fromUint8Array_def HexString_new_def noPrefix_def
      not_startsWith_bytesToHex hexToBytes_bytesToHex)

theorem bytes_round_trip_witness:
  "hex (fromUint8Array [0, 255, 16, 9]) = ''0x00ff1009''
   \<and> toUint8Array (ensure (Hex (fromUint8Array [0, 255, 16, 9]))) = Inr [0, 255, 16, 9]"
proof -
  have "hex (fromUint8Array [0, 255, 16, 9]) = ''0x00ff1009''"
    by code_simp
  with bytes_round_trip [of "[0, 255, 16, 9]"] show ?thesis by simp
qed

subsection \<open>\<^verbatim>\<open>ensure\<close>\<close>

text \<open>
  C3: \<^verbatim>\<open>HexString.ensure\<close> is idempotent on every input, a raw string or a HexString:
  ensuring the result once more, as an instance or through its string, changes nothing. The
  prefix is added only when it is absent: a string that starts with \<^verbatim>\<open>0x\<close> is stored as
  it is.
\<close>

theorem ensure_idempotent:
  "ensure (Hex (ensure m)) = ensure m
   \<and> ensure (Str (hex (ensure (Str s)))) = ensure (Str s)
   \<and> hex (ensure (Str s)) = (if startsWith s ''0x'' then s else ''0x'' @ s)"
  by (simp add: hex_def HexString_new_def startsWith_def)

theorem ensure_idempotent_witness:
  "ensure (Hex (ensure (Str ''0x1''))) = ensure (Str ''0x1'')
   \<and> ensure (Str (hex (ensure (Str ''a1'')))) = ensure (Str ''a1'')
   \<and> hex (ensure (Str ''a1'')) = ''0xa1''
   \<and> hex (ensure (Str ''0x1'')) = ''0x1''"
  using ensure_idempotent [of "Str ''0x1''" "''a1''"] ensure_idempotent [of "Str ''0x1''" "''0x1''"]
  by (simp add: startsWith_def HexString_new_def)

subsection \<open>Malformed hex\<close>

text \<open>
  C4 says that constructing a HexString from malformed hex fails. The constructor checks
  nothing but the prefix: a digit string of odd length and one with characters that are no
  hex digits are both stored.
\<close>

theorem malformed_hex_counterexample:
  "odd (length (noPrefix (ensure (Str ''0xabc''))))
   \<and> ensure (Str ''0xabc'') = \<lparr>hexString = ''0xabc''\<rparr>
   \<and> \<not> list_all is_hex_char (noPrefix (ensure (Str ''zz'')))
   \<and> ensure (Str ''zz'') = \<lparr>hexString = ''0xzz''\<rparr>
   \<and> HexString_new ''zz'' = \<lparr>hexString = ''0xzz''\<rparr>"
  by (simp add: HexString_new_def startsWith_def noPrefix_def is_hex_char_def hexval_def)

text \<open>
  C4, as the code has it: for every malformed hex input, of odd length or with characters
  that are no hex digits, \<^verbatim>\<open>HexString.ensure\<close> and the constructor do not fail. They
  return a HexString that holds the input, with the prefix \<^verbatim>\<open>0x\<close> added only when it is
  absent, so that the digits stored are the malformed digits as they were given.
\<close>

theorem malformed_hex_is_stored:
  assumes "malformed (digits_of s)"
  shows "ensure (Str s) = HexString_new s
         \<and> hexString (ensure (Str s)) = (if startsWith s ''0x'' then s else ''0x'' @ s)
         \<and> noPrefix (ensure (Str s)) = digits_of s
         \<and> malformed (noPrefix (ensure (Str s)))"
proof -
  have stored: "noPrefix (ensure (Str s)) = digits_of s"
    by (simp add: noPrefix_def digits_of_def HexString_new_def)
  with assms show ?thesis by (simp add: HexString_new_def)
qed

theorem malformed_hex_is_stored_witness:
  "malformed (digits_of ''0xabc'') \<and> malformed (digits_of ''zz'')
   \<and> hexString (ensure (Str ''0xabc'')) = ''0xabc''
   \<and> noPrefix (ensure (Str ''0xabc'')) = ''abc''
   \<and> hexString (ensure (Str ''zz'')) = ''0xzz''
   \<and> noPrefix (ensure (Str ''zz'')) = ''zz''"
proof -
  have odd3: "malformed (digits_of ''0xabc'')"
    by (simp add: malformed_def digits_of_def startsWith_def)
  have nohex: "malformed (digits_of ''zz'')"
    by (simp add: malformed_def digits_of_def startsWith_def is_hex_char_def hexval_def)
  from malformed_hex_is_stored [OF odd3] malformed_hex_is_stored [OF nohex] odd3 nohex
  show ?thesis by (simp add: startsWith_def digits_of_def)
qed

subsection \<open>The prefix invariant\<close>

text \<open>
  C10: the inner string of every HexString made by the constructor, from any string, starts
  with \<^verbatim>\<open>0x\<close>; so do \<^verbatim>\<open>hex()\<close> and \<^verbatim>\<open>toString()\<close>; and \<^verbatim>\<open>noPrefix()\<close> is \<^verbatim>\<open>hex()\<close>
  without its first two characters, which are that prefix.
\<close>

theorem hex_prefix_invariant:
  "startsWith (hexString (HexString_new s)) ''0x''
   \<and> startsWith (hex (HexString_new s)) ''0x''
   \<and> startsWith (toString (HexString_new s)) ''0x''
   \<and> noPrefix (HexString_new s) = drop 2 (hex (HexString_new s))
   \<and> hex (HexString_new s) = ''0x'' @ noPrefix (HexString_new s)"
  using startsWith_HexString_new [of s] hex_HexString_new [of s]
  by (simp add: hex_def toString_def noPrefix_def)

theorem hex_prefix_invariant_witness:
  "hex (HexString_new ''string'') = ''0xstring''
   \<and> startsWith (toString (HexString_new ''string'')) ''0x''
   \<and> noPrefix (HexString_new ''string'') = ''string''"
proof -
  have "hex (HexString_new ''string'') = ''0xstring''"
    by (simp add: hex_def HexString_new_def startsWith_def)
  with hex_prefix_invariant [of "''string''"] show ?thesis by simp
qed

section \<open>Properties of \<^verbatim>\<open>AptosApiError\<close>\<close>

text \<open>
  C5: the error made from a request and a response with status 400 or more carries the
  status code, the status text and the decoded body of the response, and the request it
  came from (and the URL, the name \<^verbatim>\<open>AptosApiError\<close> and the message it was given). For the
  404 answer with body \<^verbatim>\<open>{"message":"Account not found"}\<close> the error has status 404, that
  message in its data and the endpoint of the request.
\<close>

theorem AptosApiError_carries_response:
  assumes "400 \<le> status response"
  shows "error_status (AptosApiError_new req response message) = status response
         \<and> error_statusText (AptosApiError_new req response message) = statusText response
         \<and> error_data (AptosApiError_new req response message) = data response
         \<and> error_request (AptosApiError_new req response message) = req
         \<and> error_url (AptosApiError_new req response message) = response_url response
         \<and> error_message (AptosApiError_new req response message) = message
         \<and> error_name (AptosApiError_new req response message) = ''AptosApiError''"
  by (simp add: AptosApiError_new_def)

theorem AptosApiError_carries_response_witness:
  "400 \<le> status account_not_found
   \<and> error_status (AptosApiError_new (getData_request devnet (Str ''0x1'')) account_not_found
        ''Not Found'') = 404
   \<and> error_statusText (AptosApiError_new (getData_request devnet (Str ''0x1''))
        account_not_found ''Not Found'') = ''Not Found''
   \<and> json_field (error_data (AptosApiError_new (getData_request devnet (Str ''0x1''))
        account_not_found ''Not Found'')) ''message'' = Some (JStr ''Account not found'')
   \<and> endpoint (error_request (AptosApiError_new (getData_request devnet (Str ''0x1''))
        account_not_found ''Not Found'')) = Some ''accounts/0x1''"
proof -
  have bad: "400 \<le> status account_not_found" by (simp add: account_not_found_def)
  from AptosApiError_carries_response [OF bad, of "getData_request devnet (Str ''0x1'')" "''Not Found''"]
    bad
  show ?thesis
    by (simp add: account_not_found_def getData_request_def hex_def HexString_new_def
        startsWith_def)
qed

section \<open>Properties of the pagination walker\<close>

text \<open>One turn of the loop, for each way it can go.\<close>

lemma walk_continue:
  assumes "get (iterations st) (with_start options (cursor st)) = Inr page"
    and "cursor_header page = Some c" and "c \<noteq> []" and "cursor st \<noteq> Some c"
    and "Suc (iterations st) \<le> bound"
  shows "walk bound get options st =
         walk bound get options
           \<lparr>items = items st @ page_items page, cursor = Some c,
            iterations = Suc (iterations st)\<rparr>"
  using assms by (subst walk.simps) simp

lemma walk_absent:
  assumes "get (iterations st) (with_start options (cursor st)) = Inr page"
    and "cursor_header page = None \<or> cursor_header page = Some []"
  shows "walk bound get options st = (Inr (items st @ page_items page), Suc (iterations st))"
  using assms by (subst walk.simps) auto

lemma walk_stall:
  assumes "get (iterations st) (with_start options (cursor st)) = Inr page"
    and "cursor_header page = Some c" and "cursor st = Some c"
  shows "walk bound get options st = (Inr (items st @ page_items page), Suc (iterations st))"
  using assms by (subst walk.simps) simp

lemma walk_exhausted:
  assumes "get (iterations st) (with_start options (cursor st)) = Inr page"
    and "cursor_header page = Some c" and "c \<noteq> []" and "cursor st \<noteq> Some c"
    and "bound < Suc (iterations st)"
  shows "walk bound get options st =
         (Inl (PaginationExhaustedError (items st @ page_items page)), Suc (iterations st))"
  using assms by (subst walk.simps) simp

lemma walk_failure:
  assumes "get (iterations st) (with_start options (cursor st)) = Inl e"
  shows "walk bound get options st = (Inl e, Suc (iterations st))"
  using assms by (subst walk.simps) simp

lemma walk_prefix:
  "(\<forall>j<k. continues bound get options j) \<Longrightarrow>
   paginateWithCursor bound get options = walk bound get options (state_at get options k)"
proof (induction k)
  case 0
  show ?case by (simp add: paginateWithCursor_def state_at_def)
next
  case (Suc k)
  then have prev: "paginateWithCursor bound get options = walk bound get options (state_at get options k)"
    by simp
  from Suc.prems have ck: "continues bound get options k" by simp
  then obtain page c where
    resp: "nth_response get options k = Inr page" and hdr: "cursor_header page = Some c"
    and ne: "c \<noteq> []" and fresh: "nth_cursor get options k \<noteq> Some c" and le: "Suc k \<le> bound"
    by (auto simp: continues_def fresh_cursor_def split: sum.splits option.splits)
  have step: "walk bound get options (state_at get options k) =
              walk bound get options (state_at get options (Suc k))"
    using walk_continue [of get "state_at get options k" options page c bound] resp hdr ne fresh le
    by (simp add: state_at_def nth_response_def)
  with prev show ?case by simp
qed

lemma first_stop:
  "\<exists>k\<le>bound. (\<forall>j<k. continues bound get options j) \<and> \<not> continues bound get options k"
proof -
  have "\<not> continues bound get options bound" by (simp add: continues_def)
  then have "\<exists>k. \<not> continues bound get options k" ..
  then obtain k where stop: "\<not> continues bound get options k"
    and before: "\<forall>j<k. \<not> \<not> continues bound get options j"
    unfolding exists_least_iff [of "\<lambda>k. \<not> continues bound get options k"] by blast
  have "k \<le> bound"
  proof (rule ccontr)
    assume "\<not> k \<le> bound"
    then have "bound < k" by simp
    with before have "continues bound get options bound" by blast
    then show False by (simp add: continues_def)
  qed
  with stop before show ?thesis by auto
qed

text \<open>
  C6: whatever pages the server sends, the walk ends: after at most \<open>bound + 1\<close> requests,
  at the first answer \<open>k\<close> after which it does not go on. Its outcome is decided in this
  order: (a) the cursor of that answer is absent or empty, and the walk succeeds with the
  items of all answers so far; (b) the cursor equals the one just used, and the walk
  succeeds with the same items; (c) otherwise the cursor was new, so it is the iteration
  count that exceeds the bound, and the walk fails with a \<^verbatim>\<open>PaginationExhaustedError\<close>
  carrying those items.
\<close>

theorem walk_outcomes:
  assumes pages: "\<forall>k r. \<exists>page. get k r = Inr page"
  shows "\<exists>k page. k \<le> bound
           \<and> (\<forall>j<k. continues bound get options j)
           \<and> nth_response get options k = Inr page
           \<and> snd (paginateWithCursor bound get options) = Suc k
           \<and> fst (paginateWithCursor bound get options) =
               (if cursor_header page = None \<or> cursor_header page = Some []
                  then Inr (gathered get options (Suc k))
                else if cursor_header page = nth_cursor get options k
                  then Inr (gathered get options (Suc k))
                else Inl (PaginationExhaustedError (gathered get options (Suc k))))
           \<and> (fresh_cursor get options k \<longrightarrow> bound < Suc k)"
proof -
  obtain k where le: "k \<le> bound" and before: "\<forall>j<k. continues bound get options j"
    and stop: "\<not> continues bound get options k"
    using first_stop [of bound get options] by blast
  from pages obtain page where resp: "nth_response get options k = Inr page"
    unfolding nth_response_def by blast
  have run: "paginateWithCursor bound get options = walk bound get options (state_at get options k)"
    using walk_prefix [OF before] .
  have got: "get (iterations (state_at get options k))
               (with_start options (cursor (state_at get options k))) = Inr page"
    using resp by (simp add: state_at_def nth_response_def)
  have all: "gathered get options (Suc k) = items (state_at get options k) @ page_items page"
    using resp by (simp add: state_at_def)
  have bnd: "fresh_cursor get options k \<longrightarrow> bound < Suc k"
    using stop by (auto simp: continues_def)
  consider (absent) "cursor_header page = None \<or> cursor_header page = Some []"
    | (stall) c where "cursor_header page = Some c" "c \<noteq> []" "nth_cursor get options k = Some c"
    | (fresh) c where "cursor_header page = Some c" "c \<noteq> []" "nth_cursor get options k \<noteq> Some c"
    by (cases "cursor_header page") auto
  then have res: "walk bound get options (state_at get options k) =
      (if cursor_header page = None \<or> cursor_header page = Some []
         then Inr (gathered get options (Suc k))
       else if cursor_header page = nth_cursor get options k
         then Inr (gathered get options (Suc k))
       else Inl (PaginationExhaustedError (gathered get options (Suc k))), Suc k)"
  proof cases
    case absent
    from walk_absent [of get "state_at get options k" options page bound] got absent all
    show ?thesis by (simp add: state_at_def)
  next
    case stall
    have "cursor (state_at get options k) = Some c" using stall by (simp add: state_at_def)
    with walk_stall [of get "state_at get options k" options page c bound] got stall all
    show ?thesis by (simp add: state_at_def)
  next
    case fresh
    have cur: "cursor (state_at get options k) \<noteq> Some c" using fresh by (simp add: state_at_def)
    have "fresh_cursor get options k"
      using resp fresh by (simp add: fresh_cursor_def)
    with bnd have "bound < Suc (iterations (state_at get options k))"
      by (simp add: state_at_def)
    with walk_exhausted [of get "state_at get options k" options page c bound] got cur fresh all
    show ?thesis by (auto simp: state_at_def)
  qed
  show ?thesis
    using le before resp bnd run res by (intro exI [of _ k] exI [of _ page]) simp
qed

theorem walk_outcomes_witness:
  "(\<forall>k r. \<exists>page. three_page_server k r = Inr page)
   \<and> (\<exists>k\<le>3. snd (paginateWithCursor 3 three_page_server
                     (getModules_options devnet (Str ''0x1'') None)) = Suc k)"
proof -
  have pages: "\<forall>k r. \<exists>page. three_page_server k r = Inr page"
    by (simp add: three_page_server_def)
  from walk_outcomes [OF pages, of 3 "getModules_options devnet (Str ''0x1'') None"]
  have "\<exists>k\<le>3. snd (paginateWithCursor 3 three_page_server
                     (getModules_options devnet (Str ''0x1'') None)) = Suc k"
    by blast
  with pages show ?thesis by simp
qed

text \<open>
  C7: when the walk reaches two consecutive answers, \<open>m\<close> and \<open>m + 1\<close>, with the same
  non-empty cursor, it stops at the second: it returns the items of all answers up to and
  including that one, and the request that fetched it, the one numbered \<open>m + 2\<close>, is the
  last.
\<close>

theorem stalled_cursor_stops:
  assumes reached: "\<forall>j<Suc m. continues bound get options j"
    and first: "nth_response get options m = Inr p1" "cursor_header p1 = Some c"
    and second: "nth_response get options (Suc m) = Inr p2" "cursor_header p2 = Some c"
  shows "paginateWithCursor bound get options =
           (Inr (gathered get options (Suc m) @ page_items p2), Suc (Suc m))"
proof -
  have run: "paginateWithCursor bound get options =
             walk bound get options (state_at get options (Suc m))"
    using walk_prefix [OF reached] .
  have got: "get (iterations (state_at get options (Suc m)))
               (with_start options (cursor (state_at get options (Suc m)))) = Inr p2"
    using second(1) by (simp only: state_at_def nth_response_def) simp
  have cur: "cursor (state_at get options (Suc m)) = Some c"
    using first by (simp add: state_at_def nth_response_def)
  from walk_stall [of get "state_at get options (Suc m)" options p2 c bound] got second(2) cur run
  show ?thesis by (simp add: state_at_def)
qed

theorem stalled_cursor_stops_witness:
  "paginateWithCursor 10 stalled_server (getModules_options devnet (Str ''0x1'') None)
     = (Inr [1, 2, 4], 2)"
proof -
  let ?opts = "getModules_options devnet (Str ''0x1'') None"
  have r0: "nth_response stalled_server ?opts 0 = Inr \<lparr>page_items = [1, 2], cursor_header = Some ''a''\<rparr>"
    by (simp add: nth_response_def stalled_server_def)
  have r1: "nth_response stalled_server ?opts (Suc 0) = Inr \<lparr>page_items = [4], cursor_header = Some ''a''\<rparr>"
    by (simp add: nth_response_def stalled_server_def)
  have reached: "\<forall>j<Suc 0. continues 10 stalled_server ?opts j"
    by (simp add: continues_def fresh_cursor_def r0)
  from stalled_cursor_stops [OF reached r0 _ r1, of "''a''"] r0 show ?thesis
    by (simp add: numeral_2_eq_2)
qed

text \<open>
  C8: a server sends pages of 40, 40 and 20 items, a new cursor with each of the first two
  and none with the third. The walker returns the three pages one after the other, 100
  items in the order of the server, from exactly 3 requests.
\<close>

theorem three_pages:
  assumes "get 0 options = Inr \<lparr>page_items = p1, cursor_header = Some c1\<rparr>" and "c1 \<noteq> []"
    and "get 1 (with_start options (Some c1)) = Inr \<lparr>page_items = p2, cursor_header = Some c2\<rparr>"
    and "c2 \<noteq> []" and "c2 \<noteq> c1"
    and "get 2 (with_start options (Some c2)) = Inr \<lparr>page_items = p3, cursor_header = None\<rparr>"
    and "length p1 = 40" and "length p2 = 40" and "length p3 = 20"
    and "3 \<le> bound"
  shows "paginateWithCursor bound get options = (Inr (p1 @ p2 @ p3), 3)
         \<and> length (p1 @ p2 @ p3) = 100"
proof -
  let ?s0 = "\<lparr>items = [], cursor = None, iterations = 0\<rparr>"
  let ?s1 = "\<lparr>items = p1, cursor = Some c1, iterations = Suc 0\<rparr>"
  let ?s2 = "\<lparr>items = p1 @ p2, cursor = Some c2, iterations = Suc (Suc 0)\<rparr>"
  have "walk bound get options ?s0 = walk bound get options ?s1"
    using walk_continue [of get ?s0 options _ c1 bound] assms by (simp add: with_start_def)
  also have "\<dots> = walk bound get options ?s2"
    using walk_continue [of get ?s1 options _ c2 bound] assms by simp
  also have "\<dots> = (Inr (p1 @ p2 @ p3), 3)"
    using walk_absent [of get ?s2 options _ bound] assms by (simp add: numeral_2_eq_2 numeral_3_eq_3)
  finally show ?thesis using assms by (simp add: paginateWithCursor_def)
qed

theorem three_pages_witness:
  "paginateWithCursor 3 three_page_server (getModules_options devnet (Str ''0x1'') None)
     = (Inr ([0..<40] @ [40..<80] @ [80..<100]), 3)
   \<and> length ([0..<40] @ [40..<80] @ [80..<100] :: nat list) = 100"
  using three_pages [of three_page_server "getModules_options devnet (Str ''0x1'') None"
      "[0..<40]" "''c1''" "[40..<80]" "''c2''" "[80..<100]" 3]
  by (simp add: three_page_server_def)

section \<open>Properties of the memoized \<^verbatim>\<open>getChainId\<close>\<close>

lemma getChainId_request_entry [simp]:
  "getChainId_request (g\<lparr>chainId_entry := v\<rparr>) = getChainId_request g"
  by (simp add: getChainId_request_def)

lemma getChainId_cached:
  "chainId_entry g = Some v \<Longrightarrow> getChainId net g calls = (Inr v, g, calls)"
  by (simp add: getChainId_def Memoize_def)

lemma getChainId_first_success:
  "chainId_entry g = None \<Longrightarrow> net calls (getChainId_request g) = Inr response \<Longrightarrow>
   getChainId net g calls =
     (Inr (chain_id (data response)), g\<lparr>chainId_entry := Some (chain_id (data response))\<rparr>,
      Suc calls)"
  by (simp add: getChainId_def Memoize_def getChainId_body_def)

lemma getChainId_failure:
  "chainId_entry g = None \<Longrightarrow> net calls (getChainId_request g) = Inl e \<Longrightarrow>
   getChainId net g calls = (Inl e, g, Suc calls)"
  by (simp add: getChainId_def Memoize_def getChainId_body_def)

lemma getChainId_uncached:
  "chainId_entry g = None \<Longrightarrow>
   fst (getChainId net g calls) = fst (getChainId_body net g calls)
   \<and> snd (snd (getChainId net g calls)) = Suc calls"
  by (simp add: getChainId_def Memoize_def getChainId_body_def split: sum.splits)

lemma invocations_cached:
  "chainId_entry g = Some v \<Longrightarrow> invocations n net g calls = (replicate n (Inr v), g, calls)"
  by (induction n) (simp_all add: getChainId_cached)

text \<open>
  C9: on an instance with an empty cache entry, when the first of \<open>n + 1\<close> invocations
  one after the other succeeds, the network is called exactly once, every invocation
  returns the value of that call and the value is stored; when an invocation fails, the
  instance is left as it was, with nothing cached, and the next invocation calls the network
  once more and returns what that call gives.
\<close>

theorem getChainId_memoized:
  assumes fresh: "chainId_entry g = None"
  shows "(net calls (getChainId_request g) = Inr response \<longrightarrow>
            invocations (Suc n) net g calls =
              (replicate (Suc n) (Inr (chain_id (data response))),
               g\<lparr>chainId_entry := Some (chain_id (data response))\<rparr>,
               Suc calls))
       \<and> (net calls (getChainId_request g) = Inl e \<longrightarrow>
            getChainId net g calls = (Inl e, g, Suc calls)
            \<and> fst (getChainId net g (Suc calls)) = fst (getChainId_body net g (Suc calls))
            \<and> snd (snd (getChainId net g (Suc calls))) = Suc (Suc calls))"
proof (intro conjI impI)
  assume ok: "net calls (getChainId_request g) = Inr response"
  let ?g = "g\<lparr>chainId_entry := Some (chain_id (data response))\<rparr>"
  have "chainId_entry ?g = Some (chain_id (data response))" by simp
  from invocations_cached [OF this, of n net "Suc calls"]
    getChainId_first_success [of g net calls response] fresh ok
  show "invocations (Suc n) net g calls =
          (replicate (Suc n) (Inr (chain_id (data response))), ?g, Suc calls)"
    by simp
next
  assume "net calls (getChainId_request g) = Inl e"
  with getChainId_failure [of g net calls e] fresh
  show "getChainId net g calls = (Inl e, g, Suc calls)" by simp
next
  from getChainId_uncached [OF fresh, of net "Suc calls"]
  show "fst (getChainId net g (Suc calls)) = fst (getChainId_body net g (Suc calls))" by simp
next
  from getChainId_uncached [OF fresh, of net "Suc calls"]
  show "snd (snd (getChainId net g (Suc calls))) = Suc (Suc calls)" by simp
qed

theorem getChainId_memoized_witness:
  "chainId_entry fresh_General = None
   \<and> getChainId flaky_network fresh_General 0 = (Inl ''connection refused'', fresh_General, 1)
   \<and> invocations 3 flaky_network fresh_General 1 =
       ([Inr 4, Inr 4, Inr 4], fresh_General\<lparr>chainId_entry := Some 4\<rparr>, 2)"
proof -
  have fresh: "chainId_entry fresh_General = None" by (simp add: fresh_General_def)
  have down: "flaky_network 0 (getChainId_request fresh_General) = Inl ''connection refused''"
    by (simp add: flaky_network_def)
  have up: "flaky_network (Suc 0) (getChainId_request fresh_General) =
      Inr \<lparr>status = 200, statusText = ''OK'', data = \<lparr>chain_id = 4\<rparr>,
           response_url = url (getChainId_request fresh_General), headers = [], config = None,
           request = None\<rparr>"
    by (simp add: flaky_network_def)
  from getChainId_memoized [OF fresh, of flaky_network 0 _ _ "''connection refused''"] down
  have first: "getChainId flaky_network fresh_General 0 =
      (Inl ''connection refused'', fresh_General, 1)" by simp
  from getChainId_memoized [OF fresh, of flaky_network "Suc 0" _ 2] up
  have "invocations (Suc 2) flaky_network fresh_General (Suc 0) =
      (replicate (Suc 2) (Inr 4), fresh_General\<lparr>chainId_entry := Some 4\<rparr>, Suc (Suc 0))"
    by simp
  then have later: "invocations 3 flaky_network fresh_General 1 =
      ([Inr 4, Inr 4, Inr 4], fresh_General\<lparr>chainId_entry := Some 4\<rparr>, 2)"
    by (simp add: numeral_3_eq_3 numeral_2_eq_2)
  from fresh first later show ?thesis by simp
qed

end
